theory Spec2Isabelle
  imports Main "HOL-Library.AList"
begin

section \<open>Text: Python strings as lists of code points\<close>

text \<open>
  A Python \<^verbatim>\<open>str\<close> is a sequence of Unicode code points and \<^verbatim>\<open>len\<close> counts code
  points, so a string is modelled as a list of code-point numbers. ASCII literals of
  the source are written through \<open>ustr\<close>.
\<close>

type_synonym uchar = nat
type_synonym ustring = "uchar list"

definition ustr :: "string \<Rightarrow> ustring" where
  "ustr s = map of_char s"

text \<open>
  \<^verbatim>\<open>str.strip()\<close> and the regular-expression class \<^verbatim>\<open>\s\<close> (on a \<^verbatim>\<open>str\<close> pattern)
  both use CPython's \<^verbatim>\<open>Py_UNICODE_ISSPACE\<close>: TAB..CR, FS..US, SPACE, NEL, NBSP,
  U+1680, U+2000..U+200A, U+2028, U+2029, U+202F, U+205F, U+3000.
\<close>

definition is_space :: "uchar \<Rightarrow> bool" where
  "is_space c \<longleftrightarrow>
     (9 \<le> c \<and> c \<le> 13) \<or> (28 \<le> c \<and> c \<le> 32) \<or> c = 133 \<or> c = 160 \<or> c = 5760 \<or>
     (8192 \<le> c \<and> c \<le> 8202) \<or> c = 8232 \<or> c = 8233 \<or> c = 8239 \<or> c = 8287 \<or>
     c = 12288"

text \<open>
  \<^verbatim>\<open>\w\<close> with \<^verbatim>\<open>re.UNICODE\<close> is "alphanumeric or underscore". On ASCII that is
  \<^verbatim>\<open>[0-9A-Za-z_]\<close>; beyond ASCII it is decided by the Unicode character database of the
  Python runtime, which is not part of the repository: \<open>W\<close> stands for that table
  (\<^verbatim>\<open>str.isalnum\<close> on one non-ASCII code point).
\<close>

definition is_word :: "(uchar \<Rightarrow> bool) \<Rightarrow> uchar \<Rightarrow> bool" where
  "is_word W c \<longleftrightarrow>
     (if c < 128
      then (48 \<le> c \<and> c \<le> 57) \<or> (65 \<le> c \<and> c \<le> 90) \<or> (97 \<le> c \<and> c \<le> 122) \<or> c = 95
      else W c)"

text \<open>\<^verbatim>\<open>s.strip()\<close>: drop the whitespace at the left end, then at the right end.\<close>

definition strip :: "ustring \<Rightarrow> ustring" where
  "strip s = rev (dropWhile is_space (rev (dropWhile is_space s)))"

text \<open>Truthiness of the value of \<^verbatim>\<open>dict.get\<close> or of an optional argument:
  \<^verbatim>\<open>None\<close> and the empty string are false.\<close>

fun truthy :: "ustring option \<Rightarrow> bool" where
  "truthy None = False"
| "truthy (Some s) = (s \<noteq> [])"

text \<open>\<^verbatim>\<open>a or b\<close>\<close>

definition py_or :: "ustring option \<Rightarrow> ustring option \<Rightarrow> ustring option" where
  "py_or a b = (if truthy a then a else b)"

text \<open>\<^verbatim>\<open>s[:n]\<close> for a Python integer \<open>n\<close>: a negative bound counts from the end.\<close>

definition slice_to :: "ustring \<Rightarrow> int \<Rightarrow> ustring" where
  "slice_to s n = (if 0 \<le> n then take (nat n) s else take (length s - nat (- n)) s)"

section \<open>The filename sanitizer\<close>

text \<open>\<^verbatim>\<open>str(s or "")\<close>\<close>

definition str_or_empty :: "ustring option \<Rightarrow> ustring" where
  "str_or_empty s = (case py_or s (Some []) of None \<Rightarrow> [] | Some t \<Rightarrow> t)"

text \<open>\<^verbatim>\<open>re.sub(r"[^\w\s-]", "", s, flags=re.UNICODE)\<close>: every single character outside
  the class is a match and is replaced by nothing.\<close>

definition remove_unsafe :: "(uchar \<Rightarrow> bool) \<Rightarrow> ustring \<Rightarrow> ustring" where
  "remove_unsafe W s = filter (\<lambda>c. is_word W c \<or> is_space c \<or> c = 45) s"

text \<open>\<^verbatim>\<open>re.sub(r"\s+", "_", s)\<close>: scanning from the left, a whitespace character starts
  a greedy match that takes all the whitespace following it; the match becomes one
  underscore.\<close>

function sub_spaces :: "ustring \<Rightarrow> ustring" where
  "sub_spaces [] = []"
| "sub_spaces (c # cs) =
     (if is_space c then 95 # sub_spaces (dropWhile is_space cs) else c # sub_spaces cs)"
  by pat_completeness auto
termination
  by (relation "measure length") (auto simp: length_dropWhile_le less_Suc_eq_le)

definition safe_filename :: "(uchar \<Rightarrow> bool) \<Rightarrow> ustring option \<Rightarrow> int \<Rightarrow> ustring" where
  "safe_filename W s maxlen =
     (let s1 = str_or_empty s;
          s2 = strip s1;
          s3 = remove_unsafe W s2;
          s4 = sub_spaces s3;
          r = slice_to s4 maxlen
      in if r = [] then ustr ''output'' else r)"

text \<open>The default \<^verbatim>\<open>maxlen=120\<close>.\<close>

definition safe_filename_default :: "(uchar \<Rightarrow> bool) \<Rightarrow> ustring option \<Rightarrow> ustring" where
  "safe_filename_default W s = safe_filename W s 120"

section \<open>The key/value parser\<close>

text \<open>
  The context is a Python \<^verbatim>\<open>dict\<close> from \<^verbatim>\<open>str\<close> to \<^verbatim>\<open>str\<close>: an association list in
  insertion order. \<^verbatim>\<open>data[key] = val\<close> overwrites the value of a key already present,
  in place, and appends a new key at the end; \<^verbatim>\<open>ctx.get(key)\<close> is \<^verbatim>\<open>None\<close> for a
  missing key.
\<close>

type_synonym pydict = "(ustring \<times> ustring) list"

definition dict_set :: "ustring \<Rightarrow> ustring \<Rightarrow> pydict \<Rightarrow> pydict" where
  "dict_set key val data = AList.update key val data"

definition dict_get :: "pydict \<Rightarrow> ustring \<Rightarrow> ustring option" where
  "dict_get data key = map_of data key"

text \<open>Exceptions that reach \<^verbatim>\<open>main\<close>, and the lines written to the diagnostic stream
  (one constructor for each \<^verbatim>\<open>print(..., file=sys.stderr)\<close> of the source).\<close>

datatype exn =
    FileNotFoundError ustring  \<comment> \<open>\<^verbatim>\<open>FileNotFoundError(f"KV file not found: {path}")\<close>\<close>
  | ReadFailure  \<comment> \<open>\<^verbatim>\<open>path.open\<close> or the iteration over the file raised\<close>
  | RenderFailure  \<comment> \<open>\<^verbatim>\<open>generate_doc\<close> raised\<close>
  | StreamFailure  \<comment> \<open>a \<^verbatim>\<open>print\<close> raised: the stream did not take the text\<close>

datatype diag =
    WarnInvalidLine nat ustring  \<comment> \<open>\<^verbatim>\<open>Warning: skipping invalid line {lineno}: {line}\<close>\<close>
  | ErrTemplateNotFound ustring  \<comment> \<open>\<^verbatim>\<open>Error: template not found: {tpl_path}\<close>\<close>
  | ErrReadingKv exn  \<comment> \<open>\<^verbatim>\<open>Error reading kv file: {e}\<close>\<close>
  | WarnNoPairs  \<comment> \<open>\<^verbatim>\<open>Warning: no key/value pairs found in kv file.\<close>\<close>
  | ErrGenerating exn  \<comment> \<open>\<^verbatim>\<open>ERROR generating document: {e}\<close>\<close>

text \<open>\<^verbatim>\<open>line.startswith("#")\<close>\<close>

definition startswith_hash :: "ustring \<Rightarrow> bool" where
  "startswith_hash line = (case line of [] \<Rightarrow> False | c # _ \<Rightarrow> c = 35)"

text \<open>\<^verbatim>\<open>line.split("=", 1)\<close> on a line that contains \<^verbatim>\<open>=\<close>: the text before the first
  \<^verbatim>\<open>=\<close> and the text after it.\<close>

definition split_eq :: "ustring \<Rightarrow> ustring \<times> ustring" where
  "split_eq line = (takeWhile (\<lambda>c. c \<noteq> 61) line, drop 1 (dropWhile (\<lambda>c. c \<noteq> 61) line))"

text \<open>Lines 48 and 49: \<^verbatim>\<open>val[1:-1]\<close> when \<^verbatim>\<open>len(val) >= 2\<close>, \<^verbatim>\<open>val[0] == val[-1]\<close> and
  \<^verbatim>\<open>val[0]\<close> is a single or a double quote.\<close>

definition unquote :: "ustring \<Rightarrow> ustring" where
  "unquote val =
     (if 2 \<le> length val \<and> (val ! 0 = val ! (length val - 1) \<and> (val ! 0 = 39 \<or> val ! 0 = 34))
      then drop 1 (take (length val - 1) val)
      else val)"

text \<open>The body of the loop, on one raw line: \<open>Skipped\<close> is the first \<^verbatim>\<open>continue\<close>,
  \<open>Invalid\<close> the second one (with the stripped line of the warning), \<open>Entry\<close> the
  assignment \<^verbatim>\<open>data[key] = val\<close>.\<close>

datatype line_result = Skipped | Invalid ustring | Entry ustring ustring

definition parse_line :: "ustring \<Rightarrow> line_result" where
  "parse_line raw =
     (let line = strip raw in
      if line = [] \<or> startswith_hash line then Skipped
      else if 61 \<notin> set line then Invalid line
      else (case split_eq line of (key, val) \<Rightarrow>
              let key = strip key; val = strip val in Entry key (unquote val)))"

text \<open>The loop \<^verbatim>\<open>for lineno, raw in enumerate(fh, start=1)\<close>; the state is the
  dictionary and what has been written to the diagnostic stream.\<close>

fun parse_lines :: "nat \<Rightarrow> ustring list \<Rightarrow> pydict \<times> diag list \<Rightarrow> pydict \<times> diag list" where
  "parse_lines lineno [] st = st"
| "parse_lines lineno (raw # rest) (data, err) =
     (case parse_line raw of
        Skipped \<Rightarrow> parse_lines (Suc lineno) rest (data, err)
      | Invalid line \<Rightarrow> parse_lines (Suc lineno) rest (data, err @ [WarnInvalidLine lineno line])
      | Entry key val \<Rightarrow> parse_lines (Suc lineno) rest (dict_set key val data, err))"

text \<open>
  Iterating over a file opened in text mode: universal newlines turn \<^verbatim>\<open>\r\n\<close> and a
  lone \<^verbatim>\<open>\r\<close> into \<^verbatim>\<open>\n\<close>, and each line is delivered with its newline.
\<close>

fun translate_newlines :: "ustring \<Rightarrow> ustring" where
  "translate_newlines [] = []"
| "translate_newlines [c] = [if c = 13 then 10 else c]"
| "translate_newlines (c # d # cs) =
     (if c = 13 \<and> d = 10 then 10 # translate_newlines cs
      else if c = 13 then 10 # translate_newlines (d # cs)
      else c # translate_newlines (d # cs))"

fun split_keepends :: "ustring \<Rightarrow> ustring list" where
  "split_keepends [] = []"
| "split_keepends (c # cs) =
     (if c = 10 then [10] # split_keepends cs
      else (case split_keepends cs of [] \<Rightarrow> [[c]] | l # ls \<Rightarrow> (c # l) # ls))"

definition readlines :: "ustring \<Rightarrow> ustring list" where
  "readlines content = split_keepends (translate_newlines content)"

text \<open>
  What is behind the path of the KV file: nothing; something whose check
  (\<^verbatim>\<open>path.exists()\<close>) or opening raises; a text; or a text whose lines are delivered
  before reading raises (a decoding or input error further on).
\<close>

datatype kv_file = Absent | Unreadable | Content ustring | Broken ustring

text \<open>\<^verbatim>\<open>parse_kv_file\<close> returns what it wrote to the diagnostic stream, and the
  dictionary or the exception it raised.\<close>

fun parse_kv_file :: "ustring \<Rightarrow> kv_file \<Rightarrow> diag list \<times> (exn + pydict)" where
  "parse_kv_file path Absent = ([], Inl (FileNotFoundError path))"
| "parse_kv_file path Unreadable = ([], Inl ReadFailure)"
| "parse_kv_file path (Content content) =
     (case parse_lines 1 (readlines content) ([], []) of (data, err) \<Rightarrow> (err, Inr data))"
| "parse_kv_file path (Broken content) =
     (case parse_lines 1 (readlines content) ([], []) of (data, err) \<Rightarrow> (err, Inl ReadFailure))"

section \<open>The command\<close>

record args =
  kvfile :: ustring
  template :: ustring
  outdir :: ustring
  name :: "ustring option"

text \<open>Lines 96 to 98: the automatic output name.\<close>

definition auto_name :: "(uchar \<Rightarrow> bool) \<Rightarrow> pydict \<Rightarrow> ustring" where
  "auto_name W ctx =
     (let candidate =
            py_or (py_or (py_or (py_or (py_or
              (dict_get ctx (ustr ''FIRSTNAME''))
              (dict_get ctx (ustr ''name'')))
              (dict_get ctx (ustr ''Name'')))
              (dict_get ctx (ustr ''FULLNAME'')))
              (dict_get ctx (ustr ''FULL_NAME'')))
              (Some []);
          base = (if truthy candidate then safe_filename_default W candidate
                  else ustr ''document'')
      in base @ ustr ''.docx'')"

text \<open>Lines 92 to 98.\<close>

definition out_name :: "(uchar \<Rightarrow> bool) \<Rightarrow> args \<Rightarrow> pydict \<Rightarrow> ustring" where
  "out_name W a ctx =
     (if truthy (name a) then (case name a of None \<Rightarrow> [] | Some n \<Rightarrow> n)
      else auto_name W ctx)"







section \<open>The specification's wording\<close>

text \<open>
  The definitions of this section follow the wording of the specification, not the
  source; the sanitizer they describe is compared with \<open>safe_filename\<close> below.

  Trimming removes the whitespace that surrounds the text: the longest whitespace
  prefix and the longest whitespace suffix.
\<close>

definition spec_trim :: "ustring \<Rightarrow> ustring" where
  "spec_trim s =
     (let i = length (takeWhile is_space s);
          j = length (takeWhile is_space (rev s))
      in drop i (take (length s - j) s))"

text \<open>The maximal runs of a text: consecutive characters that agree on \<open>P\<close>.\<close>

fun runs :: "('a \<Rightarrow> bool) \<Rightarrow> 'a list \<Rightarrow> 'a list list" where
  "runs P [] = []"
| "runs P (x # xs) =
     (case runs P xs of
        [] \<Rightarrow> [[x]]
      | r # rs \<Rightarrow> if P x = P (hd r) then (x # r) # rs else [x] # r # rs)"

text \<open>Every maximal run of whitespace becomes a single underscore.\<close>

definition spec_collapse :: "ustring \<Rightarrow> ustring" where
  "spec_collapse s =
     concat (map (\<lambda>r. if is_space (hd r) then [95] else r) (runs is_space s))"

definition spec_unsafe :: "(uchar \<Rightarrow> bool) \<Rightarrow> uchar \<Rightarrow> bool" where
  "spec_unsafe W c \<longleftrightarrow> \<not> is_word W c \<and> \<not> is_space c \<and> c \<noteq> 45"

definition spec_safe_filename :: "(uchar \<Rightarrow> bool) \<Rightarrow> ustring option \<Rightarrow> nat \<Rightarrow> ustring" where
  "spec_safe_filename W s n =
     (let s0 = (case s of None \<Rightarrow> [] | Some t \<Rightarrow> t);
          s1 = spec_trim s0;
          s2 = filter (\<lambda>c. \<not> spec_unsafe W c) s1;
          s3 = spec_collapse s2;
          s4 = take n s3
      in if s4 = [] then ustr ''output'' else s4)"

text \<open>The candidate keys of the output filename policy, in the order of preference.\<close>

definition candidate_keys :: "ustring list" where
  "candidate_keys =
     [ustr ''FIRSTNAME'', ustr ''name'', ustr ''Name'', ustr ''FULLNAME'', ustr ''FULL_NAME'']"

text \<open>
  The concrete examples below are ASCII texts, on which the table of non-ASCII word
  characters is never consulted; they are evaluated with the table that has none.
\<close>

definition no_table :: "uchar \<Rightarrow> bool" where
  "no_table c = False"

section \<open>Facts about the sanitizer\<close>

lemma rev_dropWhile_rev:
  "rev (dropWhile P (rev t)) = take (length t - length (takeWhile P (rev t))) t"
proof -
  have "rev t = takeWhile P (rev t) @ dropWhile P (rev t)" by simp
  then have "t = rev (dropWhile P (rev t)) @ rev (takeWhile P (rev t))"
    by (metis rev_append rev_rev_ident)
  moreover have "length (rev (dropWhile P (rev t))) = length t - length (takeWhile P (rev t))"
    by (metis length_rev length_append add_diff_cancel_left' takeWhile_dropWhile_id)
  ultimately show ?thesis
    by (metis append_eq_conv_conj)
qed

lemma strip_spec_trim: "strip s = spec_trim s"
proof -
  define a where "a = takeWhile is_space s"
  define t where "t = dropWhile is_space s"
  have s: "s = a @ t" by (simp add: a_def t_def)
  show ?thesis
  proof (cases "t = []")
    case True
    then have "\<forall>c\<in>set s. is_space c" unfolding t_def by (simp add: dropWhile_eq_Nil_conv)
    then have tw: "takeWhile is_space (rev s) = rev s" by (simp add: takeWhile_eq_all_conv)
    have "spec_trim s = []" unfolding spec_trim_def Let_def tw by simp
    then show ?thesis using True by (simp add: strip_def t_def[symmetric])
  next
    case False
    then have h: "\<not> is_space (hd t)" unfolding t_def by (metis hd_dropWhile)
    have hin: "hd t \<in> set (rev t)" using False by simp
    have tw: "takeWhile is_space (rev s) = takeWhile is_space (rev t)"
      unfolding s using h hin by (simp add: takeWhile_append1)
    have le: "length (takeWhile is_space (rev t)) \<le> length t"
      by (metis length_takeWhile_le length_rev)
    have "spec_trim s = drop (length a) (take (length s - length (takeWhile is_space (rev t))) (a @ t))"
      unfolding spec_trim_def Let_def tw a_def[symmetric] using s by simp
    also have "\<dots> = take (length t - length (takeWhile is_space (rev t))) t"
      using le by (simp add: s)
    also have "\<dots> = strip s"
      by (simp add: strip_def t_def[symmetric] rev_dropWhile_rev)
    finally show ?thesis by simp
  qed
qed

lemma runs_Cons_hd: "\<exists>r rs. runs P (y # ys) = (y # r) # rs"
  by (cases "runs P ys") auto

lemma spec_collapse_Nil: "spec_collapse [] = []"
  by (simp add: spec_collapse_def)

lemma spec_collapse_keep: "\<not> is_space x \<Longrightarrow> spec_collapse (x # xs) = x # spec_collapse xs"
  by (cases xs) (use runs_Cons_hd[of is_space] in \<open>auto simp: spec_collapse_def split: list.splits\<close>)

lemma spec_collapse_space_space:
  "is_space x \<Longrightarrow> is_space y \<Longrightarrow> spec_collapse (x # y # ys) = spec_collapse (y # ys)"
  using runs_Cons_hd[of is_space y ys] by (auto simp: spec_collapse_def)

lemma spec_collapse_space_other:
  "is_space x \<Longrightarrow> \<not> is_space y \<Longrightarrow> spec_collapse (x # y # ys) = 95 # spec_collapse (y # ys)"
  using runs_Cons_hd[of is_space y ys] by (auto simp: spec_collapse_def)

lemma spec_collapse_space:
  "is_space x \<Longrightarrow> spec_collapse (x # xs) = 95 # spec_collapse (dropWhile is_space xs)"
proof (induction xs arbitrary: x)
  case Nil
  then show ?case by (simp add: spec_collapse_def)
next
  case (Cons y ys)
  show ?case
  proof (cases "is_space y")
    case True
    then show ?thesis using Cons by (simp add: spec_collapse_space_space)
  next
    case False
    then show ?thesis using Cons.prems by (simp add: spec_collapse_space_other)
  qed
qed

lemma sub_spaces_spec_collapse: "sub_spaces s = spec_collapse s"
  by (induction s rule: sub_spaces.induct)
     (simp_all add: spec_collapse_Nil spec_collapse_keep spec_collapse_space)

lemma str_or_empty_cases: "str_or_empty s = (case s of None \<Rightarrow> [] | Some t \<Rightarrow> t)"
  by (cases s) (auto simp: str_or_empty_def py_or_def)

lemma remove_unsafe_spec: "remove_unsafe W s = filter (\<lambda>c. \<not> spec_unsafe W c) s"
  by (simp add: remove_unsafe_def spec_unsafe_def)

lemma underscore_not_space: "\<not> is_space 95"
  by (simp add: is_space_def)

lemma underscore_word: "is_word W 95"
  by (simp add: is_word_def)

lemma set_sub_spaces: "set (sub_spaces s) \<subseteq> {c \<in> set s. \<not> is_space c} \<union> {95}"
proof (induction s rule: sub_spaces.induct)
  case 1
  show ?case by simp
next
  case (2 c cs)
  show ?case
  proof (cases "is_space c")
    case True
    have "set (dropWhile is_space cs) \<subseteq> set cs" by (rule set_dropWhileD[THEN subsetI])
    then show ?thesis using 2 True by auto
  next
    case False
    then show ?thesis using 2 by auto
  qed
qed

lemma set_slice_to: "set (slice_to s n) \<subseteq> set s"
  by (auto simp: slice_to_def dest: in_set_takeD)

lemma output_chars: "c \<in> set (ustr ''output'') \<Longrightarrow> \<not> is_space c \<and> is_word W c"
  by (auto simp: ustr_def is_space_def is_word_def)

lemma sanitized_chars:
  "c \<in> set (sub_spaces (remove_unsafe W s)) \<Longrightarrow> \<not> is_space c \<and> (is_word W c \<or> c = 45)"
  using set_sub_spaces[of "remove_unsafe W s"]
  by (auto simp: remove_unsafe_def underscore_not_space underscore_word)

lemma safe_filename_examples:
  "safe_filename W (Some (ustr ''John Doe!!'')) 120 = ustr ''John_Doe''"
  "safe_filename W (Some []) 120 = ustr ''output''"
  "safe_filename W None 120 = ustr ''output''"
  by (simp_all add: safe_filename_def ustr_def str_or_empty_def py_or_def strip_def
        remove_unsafe_def is_space_def is_word_def slice_to_def)

text \<open>
  C2. For every input (an absent one is read as the empty string) and every maximum
  length, the sanitizer computes what the specification describes, in this order:
  trim the surrounding whitespace; remove every character that is not a word
  character, whitespace or a hyphen; replace every maximal run of whitespace with one
  underscore; truncate to the maximum length (120 by default); return \<^verbatim>\<open>output\<close> if
  nothing is left. \<^verbatim>\<open>John Doe!!\<close> gives \<^verbatim>\<open>John_Doe\<close>; the empty string and \<^verbatim>\<open>None\<close>
  give \<^verbatim>\<open>output\<close>.
\<close>
theorem safe_filename_refines_spec:
  "safe_filename W s (int n) = spec_safe_filename W s n \<and>
   safe_filename_default W s = spec_safe_filename W s 120 \<and>
   safe_filename_default W (Some (ustr ''John Doe!!'')) = ustr ''John_Doe'' \<and>
   safe_filename_default W (Some []) = ustr ''output'' \<and>
   safe_filename_default W None = ustr ''output''"
proof -
  have eq: "safe_filename W s (int m) = spec_safe_filename W s m" for m
    by (simp add: safe_filename_def spec_safe_filename_def Let_def str_or_empty_cases
          strip_spec_trim remove_unsafe_spec sub_spaces_spec_collapse slice_to_def)
  have "safe_filename_default W s = safe_filename W s (int 120)"
    by (simp add: safe_filename_default_def)
  then have "safe_filename_default W s = spec_safe_filename W s 120"
    by (simp only: eq)
  then show ?thesis
    using eq[of n] by (simp add: safe_filename_default_def safe_filename_examples)
qed

text \<open>The refinement at \<^verbatim>\<open>John Doe!!\<close>.\<close>

theorem safe_filename_refines_spec_witness:
  "spec_safe_filename no_table (Some (ustr ''John Doe!!'')) 120 = ustr ''John_Doe''"
  using safe_filename_refines_spec[of no_table "Some (ustr ''John Doe!!'')" 120]
  by metis

text \<open>
  C10. For every input, absent or not, and every maximum length (any Python integer),
  the result of the sanitizer is not empty, contains no whitespace, and contains only
  word characters and hyphens.
\<close>
theorem safe_filename_result_chars:
  "safe_filename W s maxlen \<noteq> [] \<and>
   (\<forall>c\<in>set (safe_filename W s maxlen). \<not> is_space c \<and> (is_word W c \<or> c = 45))"
proof -
  have "\<not> is_space c \<and> (is_word W c \<or> c = 45)"
    if c: "c \<in> set (safe_filename W s maxlen)" for c
  proof (cases "slice_to (sub_spaces (remove_unsafe W (strip (str_or_empty s)))) maxlen = []")
    case True
    then have "safe_filename W s maxlen = ustr ''output''"
      by (simp add: safe_filename_def Let_def)
    then show ?thesis using c output_chars[of c W] by simp
  next
    case False
    then have "safe_filename W s maxlen =
        slice_to (sub_spaces (remove_unsafe W (strip (str_or_empty s)))) maxlen"
      by (simp add: safe_filename_def Let_def)
    then have "c \<in> set (sub_spaces (remove_unsafe W (strip (str_or_empty s))))"
      using c set_slice_to[of _ maxlen] by auto
    then show ?thesis by (rule sanitized_chars)
  qed
  moreover have "safe_filename W s maxlen \<noteq> []"
    by (simp add: safe_filename_def Let_def ustr_def)
  ultimately show ?thesis by blast
qed

text \<open>The character property at \<^verbatim>\<open>a b-c!\<close> with the maximum length 4.\<close>

theorem safe_filename_result_chars_witness:
  "safe_filename no_table (Some (ustr ''a b-c!'')) 4 = ustr ''a_b-'' \<and>
   safe_filename no_table (Some (ustr ''a b-c!'')) 4 \<noteq> [] \<and>
   \<not> is_space 95 \<and> (is_word no_table 95 \<or> (95::nat) = 45)"
proof -
  have e: "safe_filename no_table (Some (ustr ''a b-c!'')) 4 = ustr ''a_b-''"
    by (simp add: safe_filename_def ustr_def str_or_empty_def py_or_def strip_def
        remove_unsafe_def is_space_def is_word_def slice_to_def)
  have m: "95 \<in> set (safe_filename no_table (Some (ustr ''a b-c!'')) 4)"
    unfolding e by (simp add: ustr_def)
  from safe_filename_result_chars[of no_table "Some (ustr ''a b-c!'')" 4] m e
  show ?thesis by blast
qed

text \<open>
  C5, as stated, fails: the length of the input is not what is compared with the
  maximum. \<^verbatim>\<open>ab!!\<close> has four characters, more than the maximum 3, and its result
  \<^verbatim>\<open>ab\<close> has two.
\<close>

theorem safe_filename_length_counterexample:
  "int (length (ustr ''ab!!'')) > 3 \<and> length (safe_filename no_table (Some (ustr ''ab!!'')) 3) \<noteq> 3"
  by (simp add: safe_filename_def ustr_def str_or_empty_def py_or_def strip_def
        remove_unsafe_def is_space_def is_word_def slice_to_def)

text \<open>
  C5, amended. When the text left after trimming, removal and the replacement of
  whitespace runs is longer than a positive maximum length, the result has exactly
  the maximum length. Truncation comes before the fallback: when the truncated text
  is empty the result is \<^verbatim>\<open>output\<close>, as it always is for the maximum length 0.
\<close>

theorem safe_filename_truncates:
  "(0 < maxlen \<and> maxlen < int (length (sub_spaces (remove_unsafe W (strip (str_or_empty s)))))
      \<longrightarrow> length (safe_filename W s maxlen) = nat maxlen) \<and>
   (slice_to (sub_spaces (remove_unsafe W (strip (str_or_empty s)))) maxlen = []
      \<longrightarrow> safe_filename W s maxlen = ustr ''output'') \<and>
   safe_filename W s 0 = ustr ''output''"
  by (auto simp: safe_filename_def Let_def slice_to_def)

text \<open>\<^verbatim>\<open>a  b c d\<close> cleans to \<^verbatim>\<open>a_b_c_d\<close>, longer than 3, and is cut to three characters.\<close>

theorem safe_filename_truncates_witness:
  "(0::int) < 3 \<and>
   3 < int (length (sub_spaces (remove_unsafe no_table (strip (str_or_empty (Some (ustr ''a  b c d'')))))))
   \<and> length (safe_filename no_table (Some (ustr ''a  b c d'')) 3) = 3"
proof -
  have h: "(0::int) < 3 \<and>
      3 < int (length (sub_spaces (remove_unsafe no_table (strip (str_or_empty (Some (ustr ''a  b c d'')))))))"
    by (simp add: ustr_def str_or_empty_def py_or_def strip_def
        remove_unsafe_def is_space_def is_word_def)
  show ?thesis
    using h safe_filename_truncates[of 3 no_table "Some (ustr ''a  b c d'')"] by simp
qed

section \<open>Facts about trimming\<close>

lemma eq_not_space: "\<not> is_space 61"
  by (simp add: is_space_def)

lemma dropWhile_skip_prefix: "\<forall>c\<in>set a. P c \<Longrightarrow> dropWhile P (a @ xs) = dropWhile P xs"
  by (induction a) auto

lemma strip_all_space: "\<forall>c\<in>set s. is_space c \<Longrightarrow> strip s = []"
proof -
  assume "\<forall>c\<in>set s. is_space c"
  then have d: "dropWhile is_space s = []" by simp
  show ?thesis unfolding strip_def d by simp
qed

lemma strip_sandwich:
  assumes a: "\<forall>c\<in>set a. is_space c" and b: "\<forall>c\<in>set b. is_space c"
    and m: "m = [] \<or> (\<not> is_space (hd m) \<and> \<not> is_space (last m))"
  shows "strip (a @ m @ b) = m"
proof (cases "m = []")
  case True
  then have "\<forall>c\<in>set (a @ m @ b). is_space c" using a b by auto
  then have "strip (a @ m @ b) = []" by (rule strip_all_space)
  then show ?thesis using True by simp
next
  case False
  then obtain x m' where mx: "m = x # m'" by (cases m) auto
  have hx: "\<not> is_space x" using m False mx by simp
  have l: "dropWhile is_space (a @ m @ b) = m @ b"
    using hx by (simp add: mx dropWhile_skip_prefix[OF a])
  obtain y m'' where my: "rev m = y # m''" using False by (cases "rev m") auto
  have "y = last m" using my by (metis last_rev list.sel(1) rev_rev_ident)
  then have hy: "\<not> is_space y" using m False by simp
  have rb: "\<forall>c\<in>set (rev b). is_space c" using b by simp
  have "dropWhile is_space (rev (m @ b)) = rev m"
    using hy by (simp add: my dropWhile_skip_prefix[OF rb])
  then show ?thesis by (simp add: strip_def l)
qed

lemma strip_decomp:
  "\<exists>a b. s = a @ strip s @ b \<and> (\<forall>c\<in>set a. is_space c) \<and> (\<forall>c\<in>set b. is_space c) \<and>
     (strip s = [] \<or> (\<not> is_space (hd (strip s)) \<and> \<not> is_space (last (strip s))))"
proof -
  define t where "t = dropWhile is_space s"
  define a where "a = takeWhile is_space s"
  define b where "b = rev (takeWhile is_space (rev t))"
  have m: "strip s = rev (dropWhile is_space (rev t))" by (simp add: strip_def t_def)
  have "rev t = takeWhile is_space (rev t) @ dropWhile is_space (rev t)" by simp
  then have "rev (rev t) = rev (takeWhile is_space (rev t) @ dropWhile is_space (rev t))"
    by (rule arg_cong)
  then have t: "t = strip s @ b" unfolding m b_def by (simp only: rev_rev_ident rev_append)
  have "s = a @ t" by (simp add: a_def t_def)
  then have s: "s = a @ strip s @ b" using t by metis
  have sa: "\<forall>c\<in>set a. is_space c" unfolding a_def by (auto dest: set_takeWhileD)
  have sb: "\<forall>c\<in>set b. is_space c" unfolding b_def by (auto dest: set_takeWhileD)
  have ends: "\<not> is_space (hd (strip s)) \<and> \<not> is_space (last (strip s))" if ne: "strip s \<noteq> []"
  proof -
    have "dropWhile is_space (rev t) \<noteq> []" using ne m by simp
    then have "\<not> is_space (hd (dropWhile is_space (rev t)))" by (rule hd_dropWhile)
    then have l: "\<not> is_space (last (strip s))" using ne m by (simp add: last_rev)
    have "t \<noteq> []" using ne t by auto
    then have "\<not> is_space (hd t)" unfolding t_def by (rule hd_dropWhile)
    moreover have "hd t = hd (strip s)" using t ne by (metis hd_append2)
    ultimately show ?thesis using l by simp
  qed
  show ?thesis using s sa sb ends by blast
qed

lemma strip_rstrip: "strip (rev (dropWhile is_space (rev v))) = strip v"
proof -
  obtain a b where v: "v = a @ strip v @ b" and a: "\<forall>c\<in>set a. is_space c"
    and b: "\<forall>c\<in>set b. is_space c"
    and e: "strip v = [] \<or> (\<not> is_space (hd (strip v)) \<and> \<not> is_space (last (strip v)))"
    using strip_decomp[of v] by blast
  define m where "m = strip v"
  have vm: "v = a @ m @ b" using v m_def by simp
  show ?thesis
  proof (cases "m = []")
    case True
    then have "\<forall>c\<in>set (rev v). is_space c" using vm a b by auto
    then have d: "dropWhile is_space (rev v) = []" by simp
    have "strip [] = []" by (simp add: strip_def)
    then show ?thesis unfolding d using True m_def by simp
  next
    case False
    then obtain y m' where my: "rev m = y # m'" by (cases "rev m") auto
    have "y = last m" using my by (metis last_rev list.sel(1) rev_rev_ident)
    then have "\<not> is_space y" using e False m_def by simp
    moreover have rb: "\<forall>c\<in>set (rev b). is_space c" using b by simp
    ultimately have "dropWhile is_space (rev v) = rev m @ rev a"
      by (simp add: vm my dropWhile_skip_prefix[OF rb])
    then have "rev (dropWhile is_space (rev v)) = a @ m @ []" by simp
    moreover have "strip (a @ m @ []) = m"
      using a e by (intro strip_sandwich) (simp_all add: m_def)
    ultimately show ?thesis using m_def by simp
  qed
qed

lemma strip_lstrip: "strip (dropWhile is_space k) = strip k"
  by (simp add: strip_def)

lemma strip_around_eq:
  "strip (k @ 61 # v) = dropWhile is_space k @ 61 # rev (dropWhile is_space (rev v))"
  by (simp add: strip_def dropWhile_append3 eq_not_space)


section \<open>Facts about one line\<close>

lemma split_eq_first: "61 \<notin> set a \<Longrightarrow> split_eq (a @ 61 # b) = (a, b)"
  by (induction a) (auto simp: split_eq_def)

lemma parse_line_stripped:
  assumes "strip raw = k @ 61 # v" "61 \<notin> set k" "\<not> startswith_hash (strip raw)"
  shows "parse_line raw = Entry (strip k) (unquote (strip v))"
  using assms by (simp add: parse_line_def Let_def split_eq_first del: append_Cons)

lemma parse_line_raw:
  assumes raw: "raw = k @ 61 # v" and k: "61 \<notin> set k" and h: "\<not> startswith_hash (strip raw)"
  shows "parse_line raw = Entry (strip k) (unquote (strip v))"
proof -
  have s: "strip raw = dropWhile is_space k @ 61 # rev (dropWhile is_space (rev v))"
    unfolding raw by (rule strip_around_eq)
  have "61 \<notin> set (dropWhile is_space k)" using k by (auto dest: set_dropWhileD)
  from parse_line_stripped[OF s this h] show ?thesis
    by (simp only: strip_lstrip strip_rstrip)
qed

lemma parse_line_skipped:
  "(\<forall>c\<in>set raw. is_space c) \<or> (\<exists>rest. dropWhile is_space raw = 35 # rest)
     \<Longrightarrow> parse_line raw = Skipped"
proof (erule disjE)
  assume "\<forall>c\<in>set raw. is_space c"
  then have "strip raw = []" by (rule strip_all_space)
  then show ?thesis by (simp add: parse_line_def)
next
  assume "\<exists>rest. dropWhile is_space raw = 35 # rest"
  then obtain rest where r: "dropWhile is_space raw = 35 # rest" by blast
  have n: "\<not> is_space 35" by (simp add: is_space_def)
  have "rev (35 # rest) = rev rest @ [35]" by simp
  then have "dropWhile is_space (rev (35 # rest)) = dropWhile is_space (rev rest) @ [35]"
    using n by (simp add: dropWhile_append3)
  then have "strip raw = 35 # rev (dropWhile is_space (rev rest))"
    by (simp add: strip_def r)
  then show ?thesis by (simp add: parse_line_def startswith_hash_def)
qed


lemma unquote_quoted: "q = 39 \<or> q = 34 \<Longrightarrow> unquote (q # inner @ [q]) = inner"
  by (auto simp: unquote_def nth_append)

lemma unquote_hd_last:
  "2 \<le> length w \<and> hd w = last w \<and> (hd w = 39 \<or> hd w = 34) \<Longrightarrow> unquote w = butlast (tl w)"
proof -
  assume h: "2 \<le> length w \<and> hd w = last w \<and> (hd w = 39 \<or> hd w = 34)"
  then have ne: "w \<noteq> []" by auto
  have a: "w ! 0 = hd w" using ne by (simp add: hd_conv_nth)
  have b: "w ! (length w - 1) = last w" using ne by (simp add: last_conv_nth)
  have c: "drop 1 (take (length w - 1) w) = butlast (tl w)"
    by (simp add: butlast_conv_take drop_take tl_drop[symmetric] drop_Suc)
  show ?thesis using h unfolding unquote_def a b c by auto
qed

lemma unquote_other:
  "\<not> (2 \<le> length w \<and> hd w = last w \<and> (hd w = 39 \<or> hd w = 34)) \<Longrightarrow> unquote w = w"
proof -
  assume h: "\<not> (2 \<le> length w \<and> hd w = last w \<and> (hd w = 39 \<or> hd w = 34))"
  show ?thesis
  proof (cases "2 \<le> length w")
    case True
    then have ne: "w \<noteq> []" by auto
    have a: "w ! 0 = hd w" using ne by (simp add: hd_conv_nth)
    have b: "w ! (length w - 1) = last w" using ne by (simp add: last_conv_nth)
    show ?thesis using h True unfolding unquote_def a b by auto
  next
    case False
    then show ?thesis by (simp add: unquote_def)
  qed
qed

section \<open>Facts about the loop\<close>

lemma dict_get_set: "dict_get (dict_set k v d) k' = (if k' = k then Some v else dict_get d k')"
  by (simp add: dict_get_def dict_set_def update_conv')

lemma dict_set_distinct: "distinct (map fst d) \<Longrightarrow> distinct (map fst (dict_set k v d))"
  by (simp add: dict_set_def distinct_update)


lemma parse_lines_data:
  "fst (parse_lines n ls (d, e)) =
     fold (\<lambda>raw d. case parse_line raw of Entry k v \<Rightarrow> dict_set k v d | _ \<Rightarrow> d) ls d"
  by (induction ls arbitrary: n d e) (simp_all split: line_result.splits)


lemma parse_lines_no_invalid:
  "\<forall>r\<in>set ls. \<forall>l. parse_line r \<noteq> Invalid l \<Longrightarrow> snd (parse_lines n ls (d, e)) = e"
  by (induction ls arbitrary: n d e) (auto split: line_result.splits)

lemma parse_lines_distinct:
  "distinct (map fst d) \<Longrightarrow> distinct (map fst (fst (parse_lines n ls (d, e))))"
  by (induction ls arbitrary: n d e) (auto split: line_result.splits simp: dict_set_distinct)

lemma fold_skip_key:
  "\<forall>r\<in>set ys. \<forall>v'. parse_line r \<noteq> Entry k v' \<Longrightarrow>
   dict_get (fold (\<lambda>raw d. case parse_line raw of Entry k v \<Rightarrow> dict_set k v d | _ \<Rightarrow> d) ys d) k
     = dict_get d k"
  by (induction ys arbitrary: d) (auto split: line_result.splits simp: dict_get_set)

lemma data_without_line:
  "\<forall>k v. parse_line raw \<noteq> Entry k v \<Longrightarrow>
   fst (parse_lines n (xs @ raw # ys) (d, e)) = fst (parse_lines n (xs @ ys) (d, e))"
  by (cases "parse_line raw") (simp_all add: parse_lines_data)


lemma parse_kv_file_content:
  "parse_kv_file p (Content c) =
     (snd (parse_lines 1 (readlines c) ([], [])), Inr (fst (parse_lines 1 (readlines c) ([], []))))"
  by (simp split: prod.splits)

text \<open>The definitions unfolded to evaluate the parser on a concrete text.\<close>

lemmas ev = ustr_def strip_def is_space_def startswith_hash_def split_eq_def unquote_def
  parse_line_def readlines_def dict_set_def dict_get_def

section \<open>The claims about the parser\<close>

text \<open>
  C3. A line that contains \<^verbatim>\<open>=\<close> and is not a comment (it is then not blank either)
  yields the entry whose key is the trimmed text before the first \<^verbatim>\<open>=\<close> and whose value
  is the trimmed text after it, unquoted; after the line is processed the dictionary
  maps that key to that value. Unquoting removes exactly the outer pair when the
  trimmed value has at least two characters and begins and ends with the same single
  or double quote, and changes nothing otherwise. \<^verbatim>\<open>KEY="quoted value"\<close> gives
  \<^verbatim>\<open>quoted value\<close> and \<^verbatim>\<open>KEY='x'\<close> gives \<^verbatim>\<open>x\<close>.
\<close>
theorem valid_line_entry:
  assumes "raw = k @ 61 # v" and "61 \<notin> set k" and "\<not> startswith_hash (strip raw)"
  shows "parse_line raw = Entry (strip k) (unquote (strip v)) \<and>
    dict_get (fst (parse_lines n (xs @ [raw]) (d, e))) (strip k) = Some (unquote (strip v)) \<and>
    (2 \<le> length w \<and> hd w = last w \<and> (hd w = 39 \<or> hd w = 34) \<longrightarrow> unquote w = butlast (tl w)) \<and>
    (\<not> (2 \<le> length w \<and> hd w = last w \<and> (hd w = 39 \<or> hd w = 34)) \<longrightarrow> unquote w = w) \<and>
    (q = 39 \<or> q = 34 \<longrightarrow> unquote (q # inner @ [q]) = inner) \<and>
    parse_line (ustr ''KEY='' @ [34] @ ustr ''quoted value'' @ [34]) = Entry (ustr ''KEY'') (ustr ''quoted value'') \<and>
    parse_line (ustr ''KEY='' @ [39] @ ustr ''x'' @ [39]) = Entry (ustr ''KEY'') (ustr ''x'')"
proof -
  have p: "parse_line raw = Entry (strip k) (unquote (strip v))"
    using assms by (rule parse_line_raw)
  have "dict_get (fst (parse_lines n (xs @ [raw]) (d, e))) (strip k) = Some (unquote (strip v))"
    by (simp add: parse_lines_data p dict_get_set)
  moreover have "parse_line (ustr ''KEY='' @ [34] @ ustr ''quoted value'' @ [34]) = Entry (ustr ''KEY'') (ustr ''quoted value'')"
    by (simp add: ev)
  moreover have "parse_line (ustr ''KEY='' @ [39] @ ustr ''x'' @ [39]) = Entry (ustr ''KEY'') (ustr ''x'')"
    by (simp add: ev)
  ultimately show ?thesis
    using p unquote_hd_last[of w] unquote_other[of w] unquote_quoted[of q inner] by blast
qed

text \<open>The line \<^verbatim>\<open> city = "New York"\<close> after a line \<^verbatim>\<open>city=x\<close>.\<close>

theorem valid_line_entry_witness:
  "parse_line (ustr '' city = '' @ [34] @ ustr ''New York'' @ [34, 10]) = Entry (ustr ''city'') (ustr ''New York'') \<and>
   dict_get (fst (parse_lines 1 ([ustr ''city=x''] @ [ustr '' city = '' @ [34] @ ustr ''New York'' @ [34, 10]]) ([], [])))
      (ustr ''city'') = Some (ustr ''New York'')"
proof -
  have 1: "ustr '' city = '' @ [34] @ ustr ''New York'' @ [34, 10] = ustr '' city '' @ 61 # ([32, 34] @ ustr ''New York'' @ [34, 10])"
    by (simp add: ustr_def)
  have 2: "61 \<notin> set (ustr '' city '')" by (simp add: ustr_def)
  have 3: "\<not> startswith_hash (strip (ustr '' city = '' @ [34] @ ustr ''New York'' @ [34, 10]))"
    by (simp add: ev)
  have 4: "strip (ustr '' city '') = ustr ''city''" by (simp add: ev)
  have 5: "unquote (strip ([32, 34] @ ustr ''New York'' @ [34, 10])) = ustr ''New York''" by (simp add: ev)
  from valid_line_entry[OF 1 2 3, of 1 "[ustr ''city=x'']" "[]" "[]"]
  show ?thesis unfolding 4 5 by blast
qed

text \<open>
  C6. The five-line text \<^verbatim>\<open>A=1\nB=2\n# comment\n\nC=3\<close> parses to exactly
  \<^verbatim>\<open>{A: "1", B: "2", C: "3"}\<close>, with nothing on the diagnostic stream. In general a
  blank line, and a line whose first non-whitespace character is \<^verbatim>\<open>#\<close>, is skipped:
  it changes neither the dictionary nor the diagnostics, and the dictionary is the one
  of the text without it.
\<close>
theorem five_line_example:
  "parse_kv_file p (Content (ustr ''A=1'' @ [10] @ ustr ''B=2'' @ [10] @ ustr ''# comment'' @ [10, 10] @ ustr ''C=3''))
     = ([], Inr [(ustr ''A'', ustr ''1''), (ustr ''B'', ustr ''2''), (ustr ''C'', ustr ''3'')]) \<and>
   readlines (ustr ''A=1'' @ [10] @ ustr ''B=2'' @ [10] @ ustr ''# comment'' @ [10, 10] @ ustr ''C=3'')
     = [ustr ''A=1'' @ [10], ustr ''B=2'' @ [10], ustr ''# comment'' @ [10], [10], ustr ''C=3''] \<and>
   ((\<forall>c\<in>set raw. is_space c) \<or> (\<exists>rest. dropWhile is_space raw = 35 # rest) \<longrightarrow>
      parse_line raw = Skipped \<and>
      parse_lines n [raw] (d, e) = (d, e) \<and>
      fst (parse_lines n (xs @ raw # ys) (d, e)) = fst (parse_lines n (xs @ ys) (d, e)))"
proof -
  have "parse_kv_file p (Content (ustr ''A=1'' @ [10] @ ustr ''B=2'' @ [10] @ ustr ''# comment'' @ [10, 10] @ ustr ''C=3''))
     = ([], Inr [(ustr ''A'', ustr ''1''), (ustr ''B'', ustr ''2''), (ustr ''C'', ustr ''3'')])"
    by (simp add: ev)
  moreover have "readlines (ustr ''A=1'' @ [10] @ ustr ''B=2'' @ [10] @ ustr ''# comment'' @ [10, 10] @ ustr ''C=3'')
     = [ustr ''A=1'' @ [10], ustr ''B=2'' @ [10], ustr ''# comment'' @ [10], [10], ustr ''C=3'']"
    by (simp add: ustr_def readlines_def)
  moreover have "parse_line raw = Skipped \<and> parse_lines n [raw] (d, e) = (d, e) \<and>
      fst (parse_lines n (xs @ raw # ys) (d, e)) = fst (parse_lines n (xs @ ys) (d, e))"
    if h: "(\<forall>c\<in>set raw. is_space c) \<or> (\<exists>rest. dropWhile is_space raw = 35 # rest)"
  proof -
    have s: "parse_line raw = Skipped" using h by (rule parse_line_skipped)
    then have "\<forall>k v. parse_line raw \<noteq> Entry k v" by simp
    then have "fst (parse_lines n (xs @ raw # ys) (d, e)) = fst (parse_lines n (xs @ ys) (d, e))"
      by (rule data_without_line)
    then show ?thesis using s by simp
  qed
  ultimately show ?thesis by blast
qed

text \<open>An indented comment between two entries.\<close>

theorem five_line_example_witness:
  "dropWhile is_space (ustr ''  # note'' @ [10]) = 35 # ustr '' note'' @ [10] \<and>
   parse_line (ustr ''  # note'' @ [10]) = Skipped \<and>
   fst (parse_lines 1 ([ustr ''A=1''] @ (ustr ''  # note'' @ [10]) # [ustr ''B=2'']) ([], []))
     = [(ustr ''A'', ustr ''1''), (ustr ''B'', ustr ''2'')]"
proof -
  have 1: "dropWhile is_space (ustr ''  # note'' @ [10]) = 35 # ustr '' note'' @ [10]"
    by (simp add: ev)
  have 2: "fst (parse_lines 1 ([ustr ''A=1''] @ [ustr ''B=2'']) ([], []))
     = [(ustr ''A'', ustr ''1''), (ustr ''B'', ustr ''2'')]"
    by (simp add: ev)
  from five_line_example[of _ "ustr ''  # note'' @ [10]" 1 "[]" "[]" "[ustr ''A=1'']" "[ustr ''B=2'']"] 1 2
  show ?thesis by metis
qed



text \<open>
  C8. When a line yields the key \<open>k\<close> with the value \<open>v\<close> and no later line yields
  \<open>k\<close>, the dictionary maps \<open>k\<close> to \<open>v\<close>, whatever the earlier lines assigned to
  \<open>k\<close>; parsing the file succeeds and the keys of the result are distinct. Keys are
  compared as they are written: \<^verbatim>\<open>a\<close> and \<^verbatim>\<open>A\<close> are two keys.
\<close>
theorem duplicate_key_last_wins:
  assumes "parse_line raw = Entry k v" and "\<forall>r\<in>set ys. \<forall>v'. parse_line r \<noteq> Entry k v'"
  shows "dict_get (fst (parse_lines n (xs @ raw # ys) (d, e))) k = Some v \<and>
     (readlines content = xs @ raw # ys \<longrightarrow>
        (\<exists>err data. parse_kv_file p (Content content) = (err, Inr data) \<and>
           dict_get data k = Some v \<and> distinct (map fst data))) \<and>
     parse_kv_file p (Content (ustr ''a=1'' @ [10] @ ustr ''A=2'' @ [10] @ ustr ''a=3''))
       = ([], Inr [(ustr ''a'', ustr ''3''), (ustr ''A'', ustr ''2'')])"
proof -
  have g: "dict_get (fst (parse_lines m (xs @ raw # ys) (d', e'))) k = Some v" for m d' e'
    using assms by (simp add: parse_lines_data fold_skip_key dict_get_set)
  have "\<exists>err data. parse_kv_file p (Content content) = (err, Inr data) \<and>
           dict_get data k = Some v \<and> distinct (map fst data)"
    if "readlines content = xs @ raw # ys"
    using that g[of 1 "[]" "[]"] parse_lines_distinct[of "[]" 1 "xs @ raw # ys" "[]"]
    by (simp add: parse_kv_file_content del: parse_kv_file.simps)
  moreover have "parse_kv_file p (Content (ustr ''a=1'' @ [10] @ ustr ''A=2'' @ [10] @ ustr ''a=3''))
       = ([], Inr [(ustr ''a'', ustr ''3''), (ustr ''A'', ustr ''2'')])"
    by (simp add: ev)
  ultimately show ?thesis using g by blast
qed

text \<open>Three lines assign \<^verbatim>\<open>k\<close>; a line for another key follows.\<close>

theorem duplicate_key_last_wins_witness:
  "parse_line (ustr ''k=new'' @ [10]) = Entry (ustr ''k'') (ustr ''new'') \<and>
   parse_line (ustr ''j=1'') \<noteq> Entry (ustr ''k'') (ustr ''1'') \<and>
   dict_get (fst (parse_lines 1 ([ustr ''k=old'' @ [10], ustr ''k=older'' @ [10]] @ (ustr ''k=new'' @ [10]) # [ustr ''j=1'']) ([], [])))
     (ustr ''k'') = Some (ustr ''new'')"
proof -
  have 1: "parse_line (ustr ''k=new'' @ [10]) = Entry (ustr ''k'') (ustr ''new'')" by (simp add: ev)
  have j: "parse_line (ustr ''j=1'') = Entry (ustr ''j'') (ustr ''1'')" by (simp add: ev)
  have jk: "ustr ''j'' \<noteq> ustr ''k''" by (simp add: ustr_def)
  have 2: "\<forall>r\<in>set [ustr ''j=1'']. \<forall>v'. parse_line r \<noteq> Entry (ustr ''k'') v'"
    using j jk by simp
  from duplicate_key_last_wins[OF 1 2, of 1 "[ustr ''k=old'' @ [10], ustr ''k=older'' @ [10]]" "[]" "[]"] 1 j jk
  show ?thesis by simp
qed



section \<open>Facts about the command\<close>

lemma auto_name_chain:
  "auto_name W ctx =
     (if truthy (dict_get ctx (ustr ''FIRSTNAME''))
        then safe_filename W (dict_get ctx (ustr ''FIRSTNAME'')) 120 @ ustr ''.docx''
      else if truthy (dict_get ctx (ustr ''name''))
        then safe_filename W (dict_get ctx (ustr ''name'')) 120 @ ustr ''.docx''
      else if truthy (dict_get ctx (ustr ''Name''))
        then safe_filename W (dict_get ctx (ustr ''Name'')) 120 @ ustr ''.docx''
      else if truthy (dict_get ctx (ustr ''FULLNAME''))
        then safe_filename W (dict_get ctx (ustr ''FULLNAME'')) 120 @ ustr ''.docx''
      else if truthy (dict_get ctx (ustr ''FULL_NAME''))
        then safe_filename W (dict_get ctx (ustr ''FULL_NAME'')) 120 @ ustr ''.docx''
      else ustr ''document.docx'')"
  by (simp add: auto_name_def py_or_def Let_def safe_filename_default_def ustr_def)

lemma truthy_Some: "truthy x \<longleftrightarrow> (\<exists>v. x = Some v \<and> v \<noteq> [])"
  by (cases x) auto

lemma auto_name_fallback:
  "\<forall>k\<in>set candidate_keys. \<not> truthy (dict_get ctx k) \<Longrightarrow> auto_name W ctx = ustr ''document.docx''"
  by (simp add: auto_name_chain candidate_keys_def)

lemma auto_name_chosen:
  assumes i: "i < length candidate_keys"
    and before: "\<forall>j<i. \<not> truthy (dict_get ctx (candidate_keys ! j))"
    and v: "dict_get ctx (candidate_keys ! i) = Some v" "v \<noteq> []"
  shows "auto_name W ctx = safe_filename W (Some v) 120 @ ustr ''.docx''"
proof -
  have cases: "i = 0 \<or> i = 1 \<or> i = 2 \<or> i = 3 \<or> i = 4"
    using i by (simp add: candidate_keys_def) arith
  have b: "j < i \<Longrightarrow> \<not> truthy (dict_get ctx (candidate_keys ! j))" for j
    using before by simp
  from cases show ?thesis
  proof (elim disjE)
    assume "i = 0"
    then show ?thesis using v by (simp add: auto_name_chain candidate_keys_def)
  next
    assume "i = 1"
    then show ?thesis using v b[of 0] by (simp add: auto_name_chain candidate_keys_def)
  next
    assume "i = 2"
    then show ?thesis using v b[of 0] b[of 1] by (simp add: auto_name_chain candidate_keys_def)
  next
    assume "i = 3"
    then show ?thesis using v b[of 0] b[of 1] b[of 2]
      by (simp add: auto_name_chain candidate_keys_def)
  next
    assume "i = 4"
    then show ?thesis using v b[of 0] b[of 1] b[of 2] b[of 3]
      by (simp add: auto_name_chain candidate_keys_def)
  qed
qed

lemma docx_suffix: "x @ ustr ''.docx'' = ustr ''document.docx'' \<longleftrightarrow> x = ustr ''document''"
proof -
  have "ustr ''document.docx'' = ustr ''document'' @ ustr ''.docx''" by (simp add: ustr_def)
  then show ?thesis by (simp only: append_same_eq)
qed

lemma auto_name_document:
  assumes "auto_name W ctx = ustr ''document.docx''"
  shows "(\<forall>k\<in>set candidate_keys. \<not> truthy (dict_get ctx k)) \<or>
         (\<exists>k\<in>set candidate_keys. truthy (dict_get ctx k) \<and>
            safe_filename W (dict_get ctx k) 120 = ustr ''document'')"
  using assms unfolding auto_name_chain candidate_keys_def
  by (auto simp: docx_suffix split: if_splits)

lemma out_name_auto: "\<not> truthy (name a) \<Longrightarrow> out_name W a ctx = auto_name W ctx"
  by (simp add: out_name_def)

lemma auto_name_examples:
  "auto_name W [(ustr ''LASTNAME'', ustr ''Smith'')] = ustr ''document.docx''"
  "auto_name W [(ustr ''FIRSTNAME'', ustr ''Anna'')] = ustr ''Anna.docx''"
  by (simp_all add: auto_name_def safe_filename_def safe_filename_default_def ustr_def
        str_or_empty_def py_or_def strip_def remove_unsafe_def is_space_def is_word_def
        slice_to_def dict_get_def)

section \<open>The claims about the command\<close>

text \<open>
  C1, as stated, fails on a candidate key that is present with an empty value (the
  line \<^verbatim>\<open>FIRSTNAME=\<close>): the key exists and the name is \<^verbatim>\<open>document.docx\<close>; with
  \<^verbatim>\<open>name=Bob\<close> beside it, the value of \<^verbatim>\<open>name\<close> is chosen although \<^verbatim>\<open>FIRSTNAME\<close>
  exists.
\<close>

theorem out_name_empty_value_counterexample:
  "parse_kv_file [] (Content (ustr ''FIRSTNAME='')) = ([], Inr [(ustr ''FIRSTNAME'', [])]) \<and>
   dict_get [(ustr ''FIRSTNAME'', [])] (ustr ''FIRSTNAME'') = Some [] \<and>
   out_name no_table \<lparr>kvfile = [], template = [], outdir = [], name = None\<rparr>
     [(ustr ''FIRSTNAME'', [])] = ustr ''document.docx'' \<and>
   out_name no_table \<lparr>kvfile = [], template = [], outdir = [], name = None\<rparr>
     [(ustr ''FIRSTNAME'', []), (ustr ''name'', ustr ''Bob'')] = ustr ''Bob.docx''"
  by (simp add: out_name_def auto_name_def safe_filename_def safe_filename_default_def
        str_or_empty_def py_or_def remove_unsafe_def is_word_def slice_to_def ev)

text \<open>
  C1, amended. With no explicit output name (none, or an empty one), the output name
  is the sanitized value, followed by \<^verbatim>\<open>.docx\<close>, of the first key among
  \<^verbatim>\<open>FIRSTNAME\<close>, \<^verbatim>\<open>name\<close>, \<^verbatim>\<open>Name\<close>, \<^verbatim>\<open>FULLNAME\<close>, \<^verbatim>\<open>FULL_NAME\<close> whose value in
  the context is present and not empty; it is \<^verbatim>\<open>document.docx\<close> when no candidate
  key has a non-empty value, and otherwise only when the chosen value itself
  sanitizes to \<^verbatim>\<open>document\<close>. A context with only \<^verbatim>\<open>LASTNAME=Smith\<close> gives
  \<^verbatim>\<open>document.docx\<close>; one with \<^verbatim>\<open>FIRSTNAME=Anna\<close> gives \<^verbatim>\<open>Anna.docx\<close>.
\<close>
theorem out_name_policy:
  assumes "\<not> truthy (name a)"
  shows
   "((\<forall>k\<in>set candidate_keys. \<not> truthy (dict_get ctx k))
        \<longrightarrow> out_name W a ctx = ustr ''document.docx'') \<and>
    (i < length candidate_keys \<and> (\<forall>j<i. \<not> truthy (dict_get ctx (candidate_keys ! j))) \<and>
     dict_get ctx (candidate_keys ! i) = Some v \<and> v \<noteq> []
        \<longrightarrow> out_name W a ctx = safe_filename W (Some v) 120 @ ustr ''.docx'') \<and>
    (out_name W a ctx = ustr ''document.docx''
        \<longrightarrow> (\<forall>k\<in>set candidate_keys. \<not> truthy (dict_get ctx k)) \<or>
            (\<exists>k\<in>set candidate_keys. truthy (dict_get ctx k) \<and>
               safe_filename W (dict_get ctx k) 120 = ustr ''document'')) \<and>
    out_name W a [(ustr ''LASTNAME'', ustr ''Smith'')] = ustr ''document.docx'' \<and>
    out_name W a [(ustr ''FIRSTNAME'', ustr ''Anna'')] = ustr ''Anna.docx''"
  unfolding out_name_auto[OF assms]
  using auto_name_fallback[of ctx W] auto_name_chosen[of i ctx v W] auto_name_document[of W ctx]
  by (simp add: auto_name_examples)

text \<open>An empty \<^verbatim>\<open>FIRSTNAME\<close> and \<^verbatim>\<open>name=Jo Li\<close>: the second candidate is chosen.\<close>

theorem out_name_policy_witness:
  "\<not> truthy (name \<lparr>kvfile = [], template = [], outdir = [], name = Some []\<rparr>) \<and>
   (1::nat) < length candidate_keys \<and>
   \<not> truthy (dict_get [(ustr ''name'', ustr ''Jo Li''), (ustr ''FIRSTNAME'', [])] (candidate_keys ! 0)) \<and>
   dict_get [(ustr ''name'', ustr ''Jo Li''), (ustr ''FIRSTNAME'', [])] (candidate_keys ! 1) = Some (ustr ''Jo Li'') \<and>
   out_name no_table \<lparr>kvfile = [], template = [], outdir = [], name = Some []\<rparr>
     [(ustr ''name'', ustr ''Jo Li''), (ustr ''FIRSTNAME'', [])] = ustr ''Jo_Li.docx''"
proof -
  have 0: "\<not> truthy (name \<lparr>kvfile = [], template = [], outdir = [], name = Some []\<rparr>)" by simp
  have 1: "(1::nat) < length candidate_keys" by (simp add: candidate_keys_def)
  have 2: "\<not> truthy (dict_get [(ustr ''name'', ustr ''Jo Li''), (ustr ''FIRSTNAME'', [])] (candidate_keys ! 0))"
    by (simp add: candidate_keys_def dict_get_def ustr_def)
  then have 3: "\<forall>j<1. \<not> truthy (dict_get [(ustr ''name'', ustr ''Jo Li''), (ustr ''FIRSTNAME'', [])] (candidate_keys ! j))"
    by simp
  have 4: "dict_get [(ustr ''name'', ustr ''Jo Li''), (ustr ''FIRSTNAME'', [])] (candidate_keys ! 1) = Some (ustr ''Jo Li'')"
    by (simp add: candidate_keys_def dict_get_def ustr_def)
  have 5: "ustr ''Jo Li'' \<noteq> []" by (simp add: ustr_def)
  have 6: "safe_filename no_table (Some (ustr ''Jo Li'')) 120 @ ustr ''.docx'' = ustr ''Jo_Li.docx''"
    by (simp add: safe_filename_def ustr_def
        str_or_empty_def py_or_def strip_def remove_unsafe_def is_space_def is_word_def slice_to_def)
  from out_name_policy[OF 0, of "[(ustr ''name'', ustr ''Jo Li''), (ustr ''FIRSTNAME'', [])]" no_table 1 "ustr ''Jo Li''"]
    0 1 2 3 4 5 6
  show ?thesis by metis
qed


lemma kv_ok_iff: "(\<exists>ctx. snd (parse_kv_file p f) = Inr ctx) \<longleftrightarrow> (\<exists>c. f = Content c)"
  by (cases f) (auto split: prod.splits)











end
